theory Spec2Isabelle
  imports Main
begin

section \<open>JavaScript values\<close>

text \<open>
  The configuration code of \<^verbatim>\<open>lib/config/index.js\<close> works on plain JavaScript data:
  primitives, arrays and objects with string keys. An object is an association list in
  insertion order, a well-formed one has pairwise distinct keys (that JavaScript lists
  the keys that look like integers first is not modelled). Numbers are modelled by
  integers: the code only tests their truthiness and their strict equality. Properties
  inherited from a prototype (methods such as \<^verbatim>\<open>concat\<close> apart, which are modelled where
  the code calls them) are not part of the model, and neither is object identity: two
  objects or arrays are never \<^verbatim>\<open>===\<close> here. Arrays carry index properties only.
\<close>

datatype jsval =
    JUndefined
  | JNull
  | JBool bool
  | JNum int
  | JStr string
  | JArr "jsval list"
  | JObj "(string \<times> jsval) list"

type_synonym props = "(string \<times> jsval) list"

datatype error =
    TypeError
  | MissingToken string
  | UnsupportedPlatform jsval
  | Rejected string

text \<open>JavaScript truthiness: \<^verbatim>\<open>undefined\<close>, \<^verbatim>\<open>null\<close>, \<^verbatim>\<open>false\<close>, \<^verbatim>\<open>0\<close> and \<^verbatim>\<open>''\<close> are falsy,
  every array and every object is truthy, the empty ones too.\<close>

fun truthy :: "jsval \<Rightarrow> bool" where
  "truthy JUndefined = False"
| "truthy JNull = False"
| "truthy (JBool b) = b"
| "truthy (JNum n) = (n \<noteq> 0)"
| "truthy (JStr s) = (s \<noteq> [])"
| "truthy (JArr xs) = True"
| "truthy (JObj ps) = True"

text \<open>\<^verbatim>\<open>a || b\<close> on values.\<close>

definition js_or :: "jsval \<Rightarrow> jsval \<Rightarrow> jsval" where
  "js_or a b = (if truthy a then a else b)"

fun nullish :: "jsval \<Rightarrow> bool" where
  "nullish JUndefined = True"
| "nullish JNull = True"
| "nullish v = False"

text \<open>\<^verbatim>\<open>a === b\<close>: equality of primitives; arrays and objects compare by identity, and two
  values that reach this code from different places are different objects.\<close>

fun strict_eq :: "jsval \<Rightarrow> jsval \<Rightarrow> bool" where
  "strict_eq (JArr xs) b = False"
| "strict_eq (JObj ps) b = False"
| "strict_eq a b = (a = b)"

subsection \<open>Property keys of arrays and strings\<close>

function dec :: "nat \<Rightarrow> string" where
  "dec n = (if n < 10 then [''0123456789'' ! n] else dec (n div 10) @ [''0123456789'' ! (n mod 10)])"
  by pat_completeness auto
termination
  by (relation "measure (\<lambda>n. n)") auto

declare dec.simps [simp del]

definition index_keys :: "nat \<Rightarrow> string list" where
  "index_keys n = map dec [0..<n]"

text \<open>The own enumerable properties of a value, as object spread \<^verbatim>\<open>{...v}\<close> copies them:
  the entries of an object, the elements of an array and the characters of a string under
  their indices, nothing for the other primitives.\<close>

fun own_props :: "jsval \<Rightarrow> props" where
  "own_props (JObj ps) = ps"
| "own_props (JArr xs) = zip (index_keys (length xs)) xs"
| "own_props (JStr s) = zip (index_keys (length s)) (map (\<lambda>c. JStr [c]) s)"
| "own_props v = []"

subsection \<open>Objects: assignment, deletion, spread\<close>

text \<open>\<^verbatim>\<open>o[k] = v\<close>: an existing key keeps its place, a new key goes last.\<close>

primrec set_prop :: "string \<Rightarrow> jsval \<Rightarrow> props \<Rightarrow> props" where
  "set_prop k v [] = [(k, v)]"
| "set_prop k v (p # ps) = (if fst p = k then (k, v) # ps else p # set_prop k v ps)"

text \<open>\<^verbatim>\<open>delete o[k]\<close>.\<close>

primrec delete_prop :: "string \<Rightarrow> props \<Rightarrow> props" where
  "delete_prop k [] = []"
| "delete_prop k (p # ps) = (if fst p = k then delete_prop k ps else p # delete_prop k ps)"

text \<open>\<^verbatim>\<open>{...target, ...v}\<close> where \<open>target\<close> holds the properties written so far: the
  properties of \<open>v\<close> are assigned one by one, in order.\<close>

definition spread :: "props \<Rightarrow> jsval \<Rightarrow> props" where
  "spread target v = fold (\<lambda>(k, x). set_prop k x) (own_props v) target"

text \<open>\<^verbatim>\<open>v[k]\<close>: a \<^verbatim>\<open>TypeError\<close> on \<^verbatim>\<open>undefined\<close> and \<^verbatim>\<open>null\<close>, the \<^verbatim>\<open>length\<close> of an
  array or a string, an own property, and \<^verbatim>\<open>undefined\<close> otherwise.\<close>

fun has_length :: "jsval \<Rightarrow> nat option" where
  "has_length (JArr xs) = Some (length xs)"
| "has_length (JStr s) = Some (length s)"
| "has_length v = None"

definition get_prop :: "jsval \<Rightarrow> string \<Rightarrow> error + jsval" where
  "get_prop v k =
     (if nullish v then Inl TypeError
      else case map_of (own_props v) k of
             Some x \<Rightarrow> Inr x
           | None \<Rightarrow>
               (case has_length v of
                  Some n \<Rightarrow> if k = ''length'' then Inr (JNum (int n)) else Inr JUndefined
                | None \<Rightarrow> Inr JUndefined))"

text \<open>\<^verbatim>\<open>Object.prototype.hasOwnProperty.call(v, k)\<close>.\<close>

definition has_own_property :: "jsval \<Rightarrow> string \<Rightarrow> error + bool" where
  "has_own_property v k =
     (if nullish v then Inl TypeError
      else Inr (map_of (own_props v) k \<noteq> None \<or> (has_length v \<noteq> None \<and> k = ''length'')))"

section \<open>The option registry\<close>

text \<open>
  \<^verbatim>\<open>definitions.getOptions()\<close> is a table kept in another file; the functions below read
  four fields of each entry. An option may declare no stage (\<^verbatim>\<open>option.stage\<close> is then
  \<^verbatim>\<open>undefined\<close>); \<open>mergeable\<close> is the truthiness of \<^verbatim>\<open>option.mergeable\<close>. The registry is a
  parameter of the functions that read it.
\<close>

record option_def =
  name :: string
  otype :: string
  stage :: "string option"
  mergeable :: bool

section \<open>filterConfig\<close>

definition stages :: "string list" where
  "stages = [''global'', ''repository'', ''packageFile'', ''depType'', ''package'', ''branch'', ''pr'']"

text \<open>\<^verbatim>\<open>Array.prototype.indexOf\<close>: the first position of the value, \<open>-1\<close> when it is absent.\<close>

fun indexOf :: "string list \<Rightarrow> string option \<Rightarrow> int" where
  "indexOf [] x = -1"
| "indexOf (y # ys) x =
     (if x = Some y then 0
      else (let i = indexOf ys x in if i = -1 then -1 else i + 1))"

definition filterStep :: "int \<Rightarrow> option_def \<Rightarrow> props \<Rightarrow> props" where
  "filterStep targetIndex option outputConfig =
     (let optionIndex = indexOf stages (stage option)
      in if optionIndex \<noteq> -1 \<and> optionIndex < targetIndex
         then delete_prop (name option) outputConfig
         else outputConfig)"

definition filterConfig :: "option_def list \<Rightarrow> jsval \<Rightarrow> string option \<Rightarrow> props" where
  "filterConfig options inputConfig targetStage =
     (let outputConfig = spread [] inputConfig;
          targetIndex = indexOf stages targetStage
      in fold (filterStep targetIndex) options outputConfig)"

section \<open>mergeChildConfig\<close>

text \<open>A loop whose body may throw: the first error ends it.\<close>

fun fold_err :: "('a \<Rightarrow> 's \<Rightarrow> error + 's) \<Rightarrow> 'a list \<Rightarrow> 's \<Rightarrow> error + 's" where
  "fold_err f [] s = Inr s"
| "fold_err f (x # xs) s = (case f x s of Inl e \<Rightarrow> Inl e | Inr s' \<Rightarrow> fold_err f xs s')"

text \<open>\<^verbatim>\<open>config[k]\<close> on the object literal under construction.\<close>

definition own_value :: "props \<Rightarrow> string \<Rightarrow> jsval" where
  "own_value ps k = (case map_of ps k of Some x \<Rightarrow> x | None \<Rightarrow> JUndefined)"

text \<open>The string of a value, as \<^verbatim>\<open>String.prototype.concat\<close> builds it from its argument
  (decimal digits for a number, which is exact for the integers below \<open>10\<^sup>2\<^sup>1\<close>).\<close>

definition dec_int :: "int \<Rightarrow> string" where
  "dec_int i = (if i < 0 then CHR ''-'' # dec (nat (- i)) else dec (nat i))"

fun join_comma :: "string list \<Rightarrow> string" where
  "join_comma [] = []"
| "join_comma [s] = s"
| "join_comma (s # t # ts) = s @ '','' @ join_comma (t # ts)"

fun to_string :: "jsval \<Rightarrow> string" where
  "to_string JUndefined = ''undefined''"
| "to_string JNull = ''null''"
| "to_string (JBool b) = (if b then ''true'' else ''false'')"
| "to_string (JNum n) = dec_int n"
| "to_string (JStr s) = s"
| "to_string (JArr xs) = join_comma (map (\<lambda>x. if nullish x then [] else to_string x) xs)"
| "to_string (JObj ps) = ''[object Object]''"

text \<open>\<^verbatim>\<open>receiver.concat(arg)\<close>: an array takes the elements of an array argument and any
  other argument as one element, a string appends the string of the argument, and the other
  values have no such method.\<close>

fun js_concat :: "jsval \<Rightarrow> jsval \<Rightarrow> error + jsval" where
  "js_concat (JArr xs) (JArr ys) = Inr (JArr (xs @ ys))"
| "js_concat (JArr xs) v = Inr (JArr (xs @ [v]))"
| "js_concat (JStr s) v = Inr (JStr (s @ to_string v))"
| "js_concat r v = Inl TypeError"

text \<open>The body of the loop over the registry; \<open>config\<close> is the object being built.
  The calls of the logger are left out here and below.\<close>

definition mergeOption :: "jsval \<Rightarrow> jsval \<Rightarrow> option_def \<Rightarrow> props \<Rightarrow> error + props" where
  "mergeOption parentConfig childConfig option config =
     (if \<not> mergeable option then Inr config
      else case get_prop childConfig (name option) of
        Inl e \<Rightarrow> Inl e
      | Inr c \<Rightarrow>
          if \<not> truthy c then Inr config
          else case get_prop parentConfig (name option) of
            Inl e \<Rightarrow> Inl e
          | Inr p \<Rightarrow>
              if \<not> truthy p then Inr config
              else if otype option = ''list'' then
                (case js_concat (js_or p (JArr [])) (js_or (own_value config (name option)) (JArr [])) of
                   Inl e \<Rightarrow> Inl e
                 | Inr v \<Rightarrow> Inr (set_prop (name option) v config))
              else Inr (set_prop (name option) (JObj (spread (spread [] p) c)) config))"

definition mergeChildConfig :: "option_def list \<Rightarrow> jsval \<Rightarrow> jsval \<Rightarrow> error + jsval" where
  "mergeChildConfig options parentConfig childConfig =
     (if \<not> truthy childConfig then Inr parentConfig
      else case fold_err (mergeOption parentConfig childConfig) options
                  (spread (spread [] parentConfig) childConfig) of
             Inl e \<Rightarrow> Inl e
           | Inr config \<Rightarrow> Inr (JObj config))"

section \<open>parseConfigs\<close>

text \<open>
  The collaborators of parseConfigs live in other modules: the four loaders, the preset
  resolver and the repository listings of the three platforms. They are parameters here.
  A loader returns its partial configuration; the resolver and the listings are
  asynchronous and may reject, with a message. What parseConfigs does to the outside is
  kept as a list of events: the configuration of the logger and the listing calls.
\<close>

record collaborators =
  defaults_getConfig :: jsval
  file_getConfig :: "jsval \<Rightarrow> jsval"
  cli_getConfig :: "jsval \<Rightarrow> jsval"
  env_getConfig :: "jsval \<Rightarrow> jsval"
  resolveConfigPresets :: "jsval \<Rightarrow> string + jsval"
  github_getRepos :: "jsval \<Rightarrow> jsval \<Rightarrow> string + jsval list"
  gitlab_getRepos :: "jsval \<Rightarrow> jsval \<Rightarrow> string + jsval list"
  vsts_getRepos :: "jsval \<Rightarrow> jsval \<Rightarrow> string + jsval list"

datatype event =
    LogLevels jsval
  | AddStream jsval jsval
  | GetRepos string jsval jsval

text \<open>\<^verbatim>\<open>v.k\<close> where \<open>v\<close> is known not to be \<^verbatim>\<open>undefined\<close> or \<^verbatim>\<open>null\<close>.\<close>

definition js_get :: "jsval \<Rightarrow> string \<Rightarrow> jsval" where
  "js_get v k = (case get_prop v k of Inl e \<Rightarrow> JUndefined | Inr x \<Rightarrow> x)"

text \<open>\<^verbatim>\<open>v.k = x\<close> and \<^verbatim>\<open>delete v.k\<close> on a configuration; only an object holds named
  properties.\<close>

fun assign :: "jsval \<Rightarrow> string \<Rightarrow> jsval \<Rightarrow> jsval" where
  "assign (JObj ps) k x = JObj (set_prop k x ps)"
| "assign v k x = v"

fun del :: "jsval \<Rightarrow> string \<Rightarrow> jsval" where
  "del (JObj ps) k = JObj (delete_prop k ps)"
| "del v k = v"

text \<open>The object literal handed to the preset resolver: the four sources spread in the
  order defaults, file, CLI, environment.\<close>

definition mergeSources :: "jsval \<Rightarrow> jsval \<Rightarrow> jsval \<Rightarrow> jsval \<Rightarrow> props" where
  "mergeSources defaultConfig fileConfig cliConfig envConfig =
     spread (spread (spread (spread [] defaultConfig) fileConfig) cliConfig) envConfig"

text \<open>Setting the log level and adding the file logger.\<close>

definition configureLogger :: "jsval \<Rightarrow> event list" where
  "configureLogger config =
     LogLevels (js_get config ''logLevel'') #
     (if truthy (js_get config ''logFile'')
      then [AddStream (js_get config ''logFile'') (js_get config ''logFileLevel'')]
      else [])"

text \<open>The check of platforms and tokens; \<open>None\<close> when nothing is thrown.\<close>

definition checkToken :: "jsval \<Rightarrow> jsval \<Rightarrow> string \<Rightarrow> string \<Rightarrow> error option" where
  "checkToken config env var message =
     (if \<not> truthy (js_get config ''token'') then
        (case get_prop env var of
           Inl e \<Rightarrow> Some e
         | Inr t \<Rightarrow> if \<not> truthy t then Some (MissingToken message) else None)
      else None)"

definition checkPlatform :: "jsval \<Rightarrow> jsval \<Rightarrow> error option" where
  "checkPlatform config env =
     (if strict_eq (js_get config ''platform'') (JStr ''github'') then
        checkToken config env ''GITHUB_TOKEN'' ''You need to supply a GitHub token.''
      else if strict_eq (js_get config ''platform'') (JStr ''gitlab'') then
        checkToken config env ''GITLAB_TOKEN'' ''You need to supply a GitLab token.''
      else if strict_eq (js_get config ''platform'') (JStr ''vsts'') then
        checkToken config env ''VSTS_TOKEN'' ''You need to supply a VSTS token.''
      else Some (UnsupportedPlatform (js_get config ''platform'')))"

text \<open>The listing of the configured platform, with the call it makes.\<close>

definition discover :: "collaborators \<Rightarrow> jsval \<Rightarrow> event list \<times> (string + jsval list)" where
  "discover C config =
     (let token = js_get config ''token''; endpoint = js_get config ''endpoint'' in
      if strict_eq (js_get config ''platform'') (JStr ''github'') then
        ([GetRepos ''github'' token endpoint], github_getRepos C token endpoint)
      else if strict_eq (js_get config ''platform'') (JStr ''gitlab'') then
        ([GetRepos ''gitlab'' token endpoint], gitlab_getRepos C token endpoint)
      else if strict_eq (js_get config ''platform'') (JStr ''vsts'') then
        ([GetRepos ''vsts'' token endpoint], vsts_getRepos C token endpoint)
      else ([], Inr []))"

definition repoName :: "jsval \<Rightarrow> error + jsval" where
  "repoName repo =
     (case has_own_property repo ''repository'' of
        Inl e \<Rightarrow> Inl e
      | Inr b \<Rightarrow> if b then get_prop repo ''repository'' else Inr repo)"

text \<open>\<^verbatim>\<open>repositories.find(r => repoName(r) === newRepoName)\<close>: the first such entry,
  \<^verbatim>\<open>undefined\<close> when there is none; a value that is not an array has no \<^verbatim>\<open>find\<close>.\<close>

fun find_repo :: "jsval list \<Rightarrow> jsval \<Rightarrow> error + jsval" where
  "find_repo [] newRepoName = Inr JUndefined"
| "find_repo (r # rs) newRepoName =
     (case repoName r of
        Inl e \<Rightarrow> Inl e
      | Inr n \<Rightarrow> if strict_eq n newRepoName then Inr r else find_repo rs newRepoName)"

fun js_find :: "jsval \<Rightarrow> jsval \<Rightarrow> error + jsval" where
  "js_find (JArr rs) newRepoName = find_repo rs newRepoName"
| "js_find v newRepoName = Inl TypeError"

fun js_push :: "jsval \<Rightarrow> jsval \<Rightarrow> error + jsval" where
  "js_push (JArr rs) repo = Inr (JArr (rs @ [repo]))"
| "js_push v repo = Inl TypeError"

text \<open>One round of the loop over the discovered repositories; \<open>repositories\<close> is the
  value of \<^verbatim>\<open>config.repositories\<close>, which \<^verbatim>\<open>push\<close> extends in place.\<close>

definition discoverStep :: "jsval \<Rightarrow> jsval \<Rightarrow> error + jsval" where
  "discoverStep repo repositories =
     (case repoName repo of
        Inl e \<Rightarrow> Inl e
      | Inr newRepoName \<Rightarrow>
          (case (if truthy newRepoName then js_find repositories newRepoName
                 else Inr newRepoName) of
             Inl e \<Rightarrow> Inl e
           | Inr configuredRepo \<Rightarrow>
               if truthy configuredRepo then Inr repositories
               else js_push repositories repo))"

text \<open>The preset resolution of the repository entries that are objects. The resolutions
  run side by side; of several rejections the model reports the first in list order.\<close>

fun resolveAll :: "(jsval \<Rightarrow> string + jsval) \<Rightarrow> jsval list \<Rightarrow> error + jsval list" where
  "resolveAll resolve [] = Inr []"
| "resolveAll resolve (repo # repos) =
     (case (case repo of JObj ps \<Rightarrow> resolve repo | _ \<Rightarrow> Inr repo) of
        Inl m \<Rightarrow> Inl (Rejected m)
      | Inr r \<Rightarrow>
          (case resolveAll resolve repos of
             Inl e \<Rightarrow> Inl e
           | Inr rs \<Rightarrow> Inr (r # rs)))"

definition resolveRepositories :: "collaborators \<Rightarrow> jsval \<Rightarrow> error + jsval" where
  "resolveRepositories C config =
     (case js_get config ''repositories'' of
        JArr repos \<Rightarrow>
          if repos \<noteq> [] then
            (case resolveAll (resolveConfigPresets C) repos of
               Inl e \<Rightarrow> Inl e
             | Inr rs \<Rightarrow> Inr (assign config ''repositories'' (JArr rs)))
          else Inr config
      | _ \<Rightarrow> Inr config)"

text \<open>The end of the function: the repository entries are resolved and the two log file
  entries removed.\<close>

definition finish :: "collaborators \<Rightarrow> jsval \<Rightarrow> error + jsval" where
  "finish C config =
     (case resolveRepositories C config of
        Inl e \<Rightarrow> Inl e
      | Inr config' \<Rightarrow> Inr (del (del config' ''logFile'') ''logFileLevel''))"

text \<open>The part of parseConfigs after the check of platforms and tokens.\<close>

definition autodiscover :: "collaborators \<Rightarrow> jsval \<Rightarrow> event list \<times> (error + jsval)" where
  "autodiscover C config =
     (if truthy (js_get config ''autodiscover'') then
        (case discover C config of
           (calls, Inl m) \<Rightarrow> (calls, Inl (Rejected m))
         | (calls, Inr discovered) \<Rightarrow>
             if discovered \<noteq> [] then
               (case fold_err discoverStep discovered (js_get config ''repositories'') of
                  Inl e \<Rightarrow> (calls, Inl e)
                | Inr repositories \<Rightarrow>
                    (calls, finish C (assign config ''repositories'' repositories)))
             else (calls, Inr config))
      else ([], finish C config))"

text \<open>The whole function. Reading \<^verbatim>\<open>config.logLevel\<close> throws when the resolver has returned
  \<^verbatim>\<open>undefined\<close> or \<^verbatim>\<open>null\<close>; past that point the properties of \<open>config\<close> are read with
  \<open>js_get\<close>.\<close>

definition parseConfigs :: "collaborators \<Rightarrow> jsval \<Rightarrow> jsval \<Rightarrow> event list \<times> (error + jsval)" where
  "parseConfigs C env argv =
     (let defaultConfig = defaults_getConfig C;
          fileConfig = file_getConfig C env;
          cliConfig = cli_getConfig C argv;
          envConfig = env_getConfig C env
      in case resolveConfigPresets C
                (JObj (mergeSources defaultConfig fileConfig cliConfig envConfig)) of
           Inl m \<Rightarrow> ([], Inl (Rejected m))
         | Inr config \<Rightarrow>
             if nullish config then ([], Inl TypeError)
             else (case checkPlatform config env of
                     Some e \<Rightarrow> (configureLogger config, Inl e)
                   | None \<Rightarrow>
                       (case autodiscover C config of
                          (calls, result) \<Rightarrow> (configureLogger config @ calls, result))))"

text \<open>The two errors of the check of platforms and tokens.\<close>

fun fatal_config_error :: "error \<Rightarrow> bool" where
  "fatal_config_error (MissingToken m) = True"
| "fatal_config_error (UnsupportedPlatform v) = True"
| "fatal_config_error e = False"

text \<open>The keys of the input that the result no longer has.\<close>

definition removedKeys :: "option_def list \<Rightarrow> jsval \<Rightarrow> string option \<Rightarrow> string set" where
  "removedKeys options inputConfig targetStage =
     fst ` set (spread [] inputConfig) - fst ` set (filterConfig options inputConfig targetStage)"

section \<open>Example inputs\<close>

definition registry0 :: "option_def list" where
  "registry0 =
     [\<lparr>name = ''token'', otype = ''string'', stage = Some ''repository'', mergeable = False\<rparr>,
      \<lparr>name = ''automerge'', otype = ''boolean'', stage = Some ''package'', mergeable = False\<rparr>,
      \<lparr>name = ''description'', otype = ''string'', stage = None, mergeable = False\<rparr>,
      \<lparr>name = ''packageRules'', otype = ''list'', stage = Some ''branch'', mergeable = True\<rparr>,
      \<lparr>name = ''lockFileMaintenance'', otype = ''json'', stage = Some ''pr'', mergeable = True\<rparr>]"

definition config0 :: props where
  "config0 =
     [(''token'', JStr ''abc''), (''automerge'', JBool True), (''description'', JStr ''d''),
      (''other'', JNum 1)]"

definition parent0 :: props where
  "parent0 =
     [(''token'', JStr ''abc''),
      (''packageRules'', JArr [JStr ''a'', JStr ''b'']),
      (''lockFileMaintenance'', JObj [(''enabled'', JBool False), (''schedule'', JStr ''weekly'')])]"

definition child0 :: props where
  "child0 =
     [(''packageRules'', JArr [JStr ''c'', JStr ''a'']),
      (''lockFileMaintenance'', JObj [(''enabled'', JBool True)])]"

definition child_empty :: props where
  "child_empty = [(''packageRules'', JArr [])]"

definition source_defaults :: jsval where
  "source_defaults = JObj [(''logLevel'', JStr ''error''), (''platform'', JStr ''github''),
                           (''repositories'', JArr [])]"

definition source_file :: jsval where
  "source_file = JObj [(''platform'', JStr ''gitlab''), (''token'', JStr ''abc''),
                       (''logLevel'', JStr ''info'')]"

definition source_cli :: jsval where
  "source_cli = JObj [(''token'', JStr ''def''), (''logLevel'', JStr ''debug'')]"

definition source_env :: jsval where
  "source_env = JObj [(''token'', JStr ''xyz'')]"

definition collab :: "jsval \<Rightarrow> jsval list \<Rightarrow> collaborators" where
  "collab fileConfig repos =
     \<lparr>defaults_getConfig = JObj [(''logLevel'', JStr ''error''), (''repositories'', JArr [])],
      file_getConfig = (\<lambda>env. fileConfig),
      cli_getConfig = (\<lambda>argv. JObj []),
      env_getConfig = (\<lambda>env. JObj []),
      resolveConfigPresets = Inr,
      github_getRepos = (\<lambda>token endpoint. Inr repos),
      gitlab_getRepos = (\<lambda>token endpoint. Inr []),
      vsts_getRepos = (\<lambda>token endpoint. Inr [])\<rparr>"

definition file_autodiscover :: jsval where
  "file_autodiscover =
     JObj [(''platform'', JStr ''github''), (''token'', JStr ''abc''),
           (''autodiscover'', JBool True), (''logFile'', JStr ''renovate.log''),
           (''logFileLevel'', JStr ''debug'')]"

definition file_bitbucket :: jsval where
  "file_bitbucket = JObj [(''platform'', JStr ''bitbucket''), (''token'', JStr ''abc'')]"

definition file_no_token :: jsval where
  "file_no_token = JObj [(''platform'', JStr ''github'')]"

definition config_autodiscover :: jsval where
  "config_autodiscover =
     JObj [(''logLevel'', JStr ''error''), (''repositories'', JArr []),
           (''platform'', JStr ''github''), (''token'', JStr ''abc''),
           (''autodiscover'', JBool True), (''logFile'', JStr ''renovate.log''),
           (''logFileLevel'', JStr ''debug'')]"

definition configured_repo :: jsval where
  "configured_repo = JObj [(''repository'', JStr ''org/repo''), (''extends'', JArr [JStr '':base''])]"

section \<open>Properties of objects\<close>

lemma map_of_set_prop: "map_of (set_prop k v ps) = (map_of ps)(k \<mapsto> v)"
  by (induction ps) (auto simp: fun_eq_iff)

lemma map_of_delete_prop: "map_of (delete_prop k ps) = (map_of ps)(k := None)"
  by (induction ps) (auto simp: fun_eq_iff)

lemma delete_prop_filter: "delete_prop k ps = filter (\<lambda>p. fst p \<noteq> k) ps"
  by (induction ps) auto

lemma keys_set_prop: "fst ` set (set_prop k v ps) = insert k (fst ` set ps)"
  by (induction ps) auto

lemma distinct_set_prop: "distinct (map fst ps) \<Longrightarrow> distinct (map fst (set_prop k v ps))"
  by (induction ps) (auto simp: keys_set_prop)

lemma set_prop_append_new: "k \<notin> fst ` set ps \<Longrightarrow> set_prop k v ps = ps @ [(k, v)]"
  by (induction ps) auto

lemma fold_set_prop_distinct:
  "distinct (map fst (qs @ ps)) \<Longrightarrow> fold (\<lambda>(k, x). set_prop k x) ps qs = qs @ ps"
proof (induction ps arbitrary: qs)
  case Nil
  then show ?case by simp
next
  case (Cons p ps)
  obtain k v where p: "p = (k, v)" by (cases p)
  from Cons.prems have "k \<notin> fst ` set qs" by (auto simp: p)
  then have "set_prop k v qs = qs @ [(k, v)]" by (rule set_prop_append_new)
  moreover from Cons.prems have "distinct (map fst ((qs @ [(k, v)]) @ ps))" by (simp add: p)
  ultimately show ?case using Cons.IH[of "qs @ [(k, v)]"] by (simp add: p)
qed

text \<open>Spreading a well-formed object into an empty literal copies it.\<close>

lemma spread_empty_obj: "distinct (map fst ps) \<Longrightarrow> spread [] (JObj ps) = ps"
  using fold_set_prop_distinct[of "[]" ps] by (simp add: spread_def)

lemma map_of_filter_key:
  "Q k \<Longrightarrow> map_of (filter (\<lambda>p. Q (fst p)) ps) k = map_of ps k"
  by (induction ps) auto

lemma map_of_fold_set_prop:
  "map_of (fold (\<lambda>(k, x). set_prop k x) kvs tgt) = map_of tgt ++ map_of (rev kvs)"
proof (induction kvs arbitrary: tgt)
  case Nil then show ?case by simp
next
  case (Cons p kvs)
  obtain k v where p: "p = (k, v)" by (cases p)
  show ?case by (simp add: p Cons.IH map_of_set_prop fun_eq_iff map_add_def split: option.splits)
qed

lemma map_of_rev_distinct: "distinct (map fst kvs) \<Longrightarrow> map_of (rev kvs) = map_of kvs"
  by (metis distinct_rev map_of_inject_set rev_map set_rev  distinct_map)

lemma lookup_spread:
  assumes "distinct (map fst (own_props v))"
  shows "map_of (spread tgt v) k = (case map_of (own_props v) k of Some x \<Rightarrow> Some x | None \<Rightarrow> map_of tgt k)"
  using assms by (simp add: spread_def map_of_fold_set_prop map_of_rev_distinct map_add_def)

section \<open>Properties of filterConfig\<close>

lemma indexOf_range: "indexOf ys x = -1 \<or> (0 \<le> indexOf ys x \<and> indexOf ys x < int (length ys))"
  by (induction ys) (auto simp: Let_def)

lemma indexOf_absent: "indexOf ys x = -1 \<longleftrightarrow> x \<notin> Some ` set ys"
proof (induction ys)
  case Nil
  then show ?case by simp
next
  case (Cons y ys)
  from indexOf_range[of ys x] have "indexOf ys x + 1 \<noteq> -1" by auto
  with Cons show ?case by (auto simp: Let_def)
qed

text \<open>\<open>indexOf\<close> gives each stage its position in the ordered list.\<close>

lemma indexOf_stages_nth: "i < length stages \<Longrightarrow> indexOf stages (Some (stages ! i)) = int i"
  by (auto simp: stages_def less_Suc_eq numeral_eq_Suc)

lemma filterStep_filter:
  "filterStep ti opt ps =
     filter (\<lambda>p. \<not> (indexOf stages (stage opt) \<noteq> -1 \<and> indexOf stages (stage opt) < ti \<and>
                     name opt = fst p)) ps"
  by (auto simp: filterStep_def Let_def delete_prop_filter intro!: filter_cong)

lemma fold_filterStep:
  "fold (filterStep ti) options ps =
     filter (\<lambda>p. \<not> (\<exists>opt \<in> set options. name opt = fst p \<and>
                     indexOf stages (stage opt) \<noteq> -1 \<and> indexOf stages (stage opt) < ti)) ps"
proof (induction options arbitrary: ps)
  case Nil
  then show ?case by simp
next
  case (Cons a os)
  have "fold (filterStep ti) (a # os) ps = fold (filterStep ti) os (filterStep ti a ps)" by simp
  also have "\<dots> = filter (\<lambda>p. \<not> (\<exists>opt \<in> set os. name opt = fst p \<and>
                        indexOf stages (stage opt) \<noteq> -1 \<and> indexOf stages (stage opt) < ti))
                      (filterStep ti a ps)"
    by (simp only: Cons.IH)
  also have "\<dots> = filter (\<lambda>p. \<not> (\<exists>opt \<in> set (a # os). name opt = fst p \<and>
                        indexOf stages (stage opt) \<noteq> -1 \<and> indexOf stages (stage opt) < ti)) ps"
    unfolding filterStep_filter by (auto intro!: filter_cong)
  finally show ?case .
qed

lemma filterConfig_as_filter:
  "filterConfig options cfg t =
     filter (\<lambda>p. \<not> (\<exists>opt \<in> set options. name opt = fst p \<and>
                     indexOf stages (stage opt) \<noteq> -1 \<and>
                     indexOf stages (stage opt) < indexOf stages t)) (spread [] cfg)"
  by (simp add: filterConfig_def Let_def fold_filterStep)

text \<open>
  C7. From a well-formed configuration object, filterConfig removes exactly the keys
  named by an option whose declared stage is in the ordered stage list at an index
  strictly below the index of the target stage; the other entries stay, in order and
  with their values. So a key that no option names is retained, and, option names being
  unique, so is the key of an option whose stage is not in the list or not earlier than
  the target.
\<close>

theorem filterConfig_removes_exactly:
  assumes "distinct (map fst ps)"
  shows "filterConfig options (JObj ps) targetStage =
           filter (\<lambda>p. \<not> (\<exists>opt \<in> set options. name opt = fst p \<and>
                     indexOf stages (stage opt) \<noteq> -1 \<and>
                     indexOf stages (stage opt) < indexOf stages targetStage)) ps
         \<and> (\<forall>k. k \<notin> name ` set options \<longrightarrow>
               map_of (filterConfig options (JObj ps) targetStage) k = map_of ps k)
         \<and> (distinct (map name options) \<longrightarrow>
             (\<forall>opt \<in> set options.
                (indexOf stages (stage opt) = -1 \<or>
                 indexOf stages targetStage \<le> indexOf stages (stage opt)) \<longrightarrow>
                map_of (filterConfig options (JObj ps) targetStage) (name opt) =
                  map_of ps (name opt)))"
proof -
  let ?Q = "\<lambda>k. \<not> (\<exists>opt \<in> set options. name opt = k \<and>
                     indexOf stages (stage opt) \<noteq> -1 \<and>
                     indexOf stages (stage opt) < indexOf stages targetStage)"
  have eq: "filterConfig options (JObj ps) targetStage = filter (\<lambda>p. ?Q (fst p)) ps"
    using assms by (simp add: filterConfig_as_filter spread_empty_obj)
  have keep: "map_of (filterConfig options (JObj ps) targetStage) k = map_of ps k" if "?Q k" for k
    unfolding eq using that by (rule map_of_filter_key)
  have unknown: "\<forall>k. k \<notin> name ` set options \<longrightarrow>
           map_of (filterConfig options (JObj ps) targetStage) k = map_of ps k"
    by (intro allI impI keep) auto
  have later: "map_of (filterConfig options (JObj ps) targetStage) (name opt) = map_of ps (name opt)"
    if d: "distinct (map name options)" and m: "opt \<in> set options"
      and s: "indexOf stages (stage opt) = -1 \<or>
              indexOf stages targetStage \<le> indexOf stages (stage opt)" for opt
  proof (rule keep, rule notI, erule bexE)
    fix opt'
    assume m': "opt' \<in> set options"
      and r: "name opt' = name opt \<and> indexOf stages (stage opt') \<noteq> -1 \<and>
              indexOf stages (stage opt') < indexOf stages targetStage"
    from d m m' r have "opt' = opt" by (meson distinct_map inj_onD)
    with r s show False by auto
  qed
  from eq unknown later show ?thesis by blast
qed

theorem filterConfig_removes_exactly_witness:
  "distinct (map fst config0) \<and> distinct (map name registry0)
   \<and> filterConfig registry0 (JObj config0) (Some ''package'') =
       [(''automerge'', JBool True), (''description'', JStr ''d''), (''other'', JNum 1)]
   \<and> map_of (filterConfig registry0 (JObj config0) (Some ''package'')) ''other'' = Some (JNum 1)
   \<and> map_of (filterConfig registry0 (JObj config0) (Some ''package'')) ''automerge'' =
       Some (JBool True)"
  using filterConfig_removes_exactly [of config0 registry0 "Some ''package''"]
  by (simp add: config0_def registry0_def stages_def)

text \<open>
  C10. A target stage that is none of the seven stage names has index \<open>-1\<close>, and then
  filterConfig removes no key, whatever stages the options declare: the result is a copy
  of the (well-formed) input object.
\<close>

theorem filterConfig_unknown_target:
  assumes "targetStage \<notin> Some ` set stages" and "distinct (map fst ps)"
  shows "indexOf stages targetStage = -1 \<and> filterConfig options (JObj ps) targetStage = ps"
proof -
  from assms(1) have i: "indexOf stages targetStage = -1" by (simp add: indexOf_absent)
  have "\<not> (indexOf stages s \<noteq> -1 \<and> indexOf stages s < -1)" for s
    using indexOf_range[of stages s] by auto
  then have "filterConfig options (JObj ps) targetStage = spread [] (JObj ps)"
    by (simp add: filterConfig_as_filter i)
  with i assms(2) show ?thesis by (simp add: spread_empty_obj)
qed

theorem filterConfig_unknown_target_witness:
  "Some ''lockFile'' \<notin> Some ` set stages \<and> distinct (map fst config0)
   \<and> indexOf stages (Some ''lockFile'') = -1
   \<and> filterConfig registry0 (JObj config0) (Some ''lockFile'') = config0"
  using filterConfig_unknown_target [of "Some ''lockFile''" config0 registry0]
  by (simp add: config0_def stages_def)

lemma removedKeys_char:
  "removedKeys options cfg t =
     {k \<in> fst ` set (spread [] cfg). \<exists>opt \<in> set options. name opt = k \<and>
          indexOf stages (stage opt) \<noteq> -1 \<and> indexOf stages (stage opt) < indexOf stages t}"
  unfolding removedKeys_def filterConfig_as_filter by force

lemma indexOf_package: "indexOf stages (Some ''package'') = 4"
  by (simp add: stages_def)

lemma indexOf_pr: "indexOf stages (Some ''pr'') = 6"
  by (simp add: stages_def)

lemma indexOf_stages_4_5:
  "(4 \<le> indexOf stages s \<and> indexOf stages s < 6) \<longleftrightarrow> (s = Some ''package'' \<or> s = Some ''branch'')"
  by (cases s) (auto simp: stages_def Let_def)

text \<open>
  C8, as stated, fails: with an option staged at \<open>package\<close> in the registry, a
  configuration that does not hold that option's key loses the same keys at target
  \<open>package\<close> and at target \<open>pr\<close>, so the second set is no strict superset of the first.
\<close>

theorem removedKeys_counterexample:
  "\<not> (removedKeys
         [\<lparr>name = ''token'', otype = ''string'', stage = Some ''repository'', mergeable = False\<rparr>,
          \<lparr>name = ''automerge'', otype = ''boolean'', stage = Some ''package'', mergeable = False\<rparr>]
         (JObj [(''token'', JStr ''abc'')]) (Some ''package'')
       \<subset> removedKeys
         [\<lparr>name = ''token'', otype = ''string'', stage = Some ''repository'', mergeable = False\<rparr>,
          \<lparr>name = ''automerge'', otype = ''boolean'', stage = Some ''package'', mergeable = False\<rparr>]
         (JObj [(''token'', JStr ''abc'')]) (Some ''pr''))"
  by (simp add: removedKeys_def filterConfig_def filterStep_def spread_def stages_def)

text \<open>
  C8, amended. With unique option names, the keys that filterConfig removes at target
  \<open>pr\<close> include the keys it removes at target \<open>package\<close>, for every configuration; the
  inclusion is strict exactly when the configuration holds a key named by an option staged
  at \<open>package\<close> or \<open>branch\<close>.
\<close>

theorem removedKeys_package_pr:
  assumes "distinct (map name options)"
  shows "removedKeys options cfg (Some ''package'') \<subseteq> removedKeys options cfg (Some ''pr'')
       \<and> (removedKeys options cfg (Some ''package'') \<subset> removedKeys options cfg (Some ''pr'')
            \<longleftrightarrow> (\<exists>opt \<in> set options.
                   (stage opt = Some ''package'' \<or> stage opt = Some ''branch'') \<and>
                   name opt \<in> fst ` set (spread [] cfg)))"
proof -
  let ?A = "removedKeys options cfg (Some ''package'')"
  let ?B = "removedKeys options cfg (Some ''pr'')"
  have sub: "?A \<subseteq> ?B"
    unfolding removedKeys_char indexOf_package indexOf_pr by force
  have uniq: "opt' = opt" if "opt \<in> set options" "opt' \<in> set options" "name opt' = name opt" for opt opt'
    using assms that by (meson distinct_map inj_onD)
  have diff: "?B - ?A = {k \<in> fst ` set (spread [] cfg). \<exists>opt \<in> set options. name opt = k \<and>
                  (stage opt = Some ''package'' \<or> stage opt = Some ''branch'')}" (is "_ = ?D")
  proof (rule set_eqI, rule iffI)
    fix k assume "k \<in> ?B - ?A"
    then obtain opt where k: "k \<in> fst ` set (spread [] cfg)" and o: "opt \<in> set options" "name opt = k"
      and i: "indexOf stages (stage opt) \<noteq> -1" "indexOf stages (stage opt) < 6"
      and n: "\<not> (\<exists>opt \<in> set options. name opt = k \<and> indexOf stages (stage opt) \<noteq> -1 \<and> indexOf stages (stage opt) < 4)"
      unfolding removedKeys_char indexOf_package indexOf_pr by auto
    from n o i have "4 \<le> indexOf stages (stage opt)" by force
    with i have "stage opt = Some ''package'' \<or> stage opt = Some ''branch''"
      using indexOf_stages_4_5[of "stage opt"] by simp
    with k o show "k \<in> ?D" by auto
  next
    fix k assume "k \<in> ?D"
    then obtain opt where k: "k \<in> fst ` set (spread [] cfg)" and o: "opt \<in> set options" "name opt = k"
      and s: "stage opt = Some ''package'' \<or> stage opt = Some ''branch''" by auto
    from s have i: "4 \<le> indexOf stages (stage opt) \<and> indexOf stages (stage opt) < 6"
      using indexOf_stages_4_5[of "stage opt"] by simp
    then have inB: "k \<in> ?B"
      unfolding removedKeys_char indexOf_pr using k o by force
    have "\<not> (indexOf stages (stage opt') \<noteq> -1 \<and> indexOf stages (stage opt') < 4)"
      if "opt' \<in> set options" "name opt' = k" for opt'
      using uniq[OF o(1) that(1)] that(2) o(2) i by auto
    then have "k \<notin> ?A"
      unfolding removedKeys_char indexOf_package by auto
    with inB show "k \<in> ?B - ?A" by simp
  qed
  have "?A \<subset> ?B \<longleftrightarrow> ?B - ?A \<noteq> {}" using sub by auto
  also have "\<dots> \<longleftrightarrow> (\<exists>opt \<in> set options.
                   (stage opt = Some ''package'' \<or> stage opt = Some ''branch'') \<and>
                   name opt \<in> fst ` set (spread [] cfg))"
    unfolding diff by auto
  finally show ?thesis using sub by simp
qed

theorem removedKeys_package_pr_witness:
  "distinct (map name registry0)
   \<and> removedKeys registry0 (JObj config0) (Some ''package'')
       \<subseteq> removedKeys registry0 (JObj config0) (Some ''pr'')
   \<and> removedKeys registry0 (JObj config0) (Some ''package'')
       \<subset> removedKeys registry0 (JObj config0) (Some ''pr'')"
  using removedKeys_package_pr [of registry0 "JObj config0"]
  by (simp add: registry0_def config0_def spread_def)

section \<open>Properties of mergeChildConfig\<close>

text \<open>
  C9. When the child configuration is absent (\<^verbatim>\<open>undefined\<close>, or any other falsy value),
  mergeChildConfig returns the parent configuration itself, for every parent.
\<close>

theorem mergeChildConfig_absent_child:
  "\<not> truthy childConfig \<Longrightarrow> mergeChildConfig options parentConfig childConfig = Inr parentConfig"
  by (simp add: mergeChildConfig_def)

theorem mergeChildConfig_absent_child_witness:
  "\<not> truthy JUndefined \<and> mergeChildConfig registry0 (JObj parent0) JUndefined = Inr (JObj parent0)"
  using mergeChildConfig_absent_child [of JUndefined registry0 "JObj parent0"] by simp

lemma fold_err_append:
  "fold_err f (xs @ ys) s = (case fold_err f xs s of Inl e \<Rightarrow> Inl e | Inr s' \<Rightarrow> fold_err f ys s')"
  by (induction xs arbitrary: s) (auto split: sum.splits)

lemma fold_err_returns:
  "(\<And>x s. x \<in> set xs \<Longrightarrow> \<exists>s'. f x s = Inr s') \<Longrightarrow> \<exists>s'. fold_err f xs s = Inr s'"
proof (induction xs arbitrary: s)
  case Nil then show ?case by simp
next
  case (Cons x xs)
  from Cons.prems[of x s] obtain s1 where s1: "f x s = Inr s1" by auto
  from Cons.IH[of s1] Cons.prems obtain s2 where "fold_err f xs s1 = Inr s2" by auto
  with s1 show ?case by simp
qed

lemma mergeOption_other_key:
  "mergeOption P C opt cfg = Inr cfg' \<Longrightarrow> k \<noteq> name opt \<Longrightarrow> map_of cfg' k = map_of cfg k"
  by (auto simp: mergeOption_def map_of_set_prop split: if_splits sum.splits)

lemma fold_mergeOption_other_key:
  "fold_err (mergeOption P C) os cfg = Inr cfg' \<Longrightarrow> k \<notin> name ` set os \<Longrightarrow>
     map_of cfg' k = map_of cfg k"
proof (induction os arbitrary: cfg)
  case Nil then show ?case by simp
next
  case (Cons a os)
  from Cons.prems(1) obtain c1 where a: "mergeOption P C a cfg = Inr c1"
    and r: "fold_err (mergeOption P C) os c1 = Inr cfg'"
    by (auto split: sum.splits)
  from Cons.prems(2) have "k \<noteq> name a" "k \<notin> name ` set os" by auto
  with Cons.IH[OF r] mergeOption_other_key[OF a] show ?case by simp
qed

lemma get_prop_obj: "get_prop (JObj ps) k = Inr (own_value ps k)"
  by (simp add: get_prop_def own_value_def split: option.splits)

lemma mergeOption_own_key:
  assumes "mergeable opt" "map_of pp (name opt) = Some p" "truthy p"
    and "map_of cc (name opt) = Some c" "truthy c"
    and "map_of cfg (name opt) = Some c"
    and "mergeOption (JObj pp) (JObj cc) opt cfg = Inr cfg'"
  shows "map_of cfg' (name opt) =
           (if otype opt = ''list''
            then (case js_concat p c of Inr v \<Rightarrow> Some v | Inl e \<Rightarrow> None)
            else Some (JObj (spread (spread [] p) c)))"
  using assms
  by (auto simp: mergeOption_def get_prop_obj own_value_def js_or_def map_of_set_prop
      split: if_splits sum.splits)

text \<open>
  C6. Let a mergeable option of the registry (option names being unique) have a truthy
  value \<open>p\<close> in the parent object and a truthy value \<open>c\<close> in the child object, and let
  mergeChildConfig return. If the option's type is \<open>list\<close> and both values are
  arrays, the result holds under the option's key the parent's array followed by the
  child's, each in its order and with duplicates kept; so an empty child array leaves the
  parent's array. Otherwise the result holds the shallow merge of the two values, where
  a key of the child overrides the same key of the parent.
\<close>

theorem mergeChildConfig_mergeable:
  assumes "distinct (map name options)" and "option \<in> set options" and "mergeable option"
    and "distinct (map fst cc)"
    and "map_of pp (name option) = Some p" and "truthy p"
    and "map_of cc (name option) = Some c" and "truthy c"
    and "mergeChildConfig options (JObj pp) (JObj cc) = Inr config"
  shows "(otype option = ''list'' \<longrightarrow>
            (\<forall>ps cs. p = JArr ps \<and> c = JArr cs \<longrightarrow>
               get_prop config (name option) = Inr (JArr (ps @ cs))))
       \<and> (otype option = ''list'' \<longrightarrow>
            (\<forall>ps. p = JArr ps \<and> c = JArr [] \<longrightarrow> get_prop config (name option) = Inr p))
       \<and> (otype option \<noteq> ''list'' \<longrightarrow>
            get_prop config (name option) = Inr (JObj (spread (spread [] p) c)))
       \<and> (\<forall>po co k. p = JObj po \<and> c = JObj co \<and> distinct (map fst po) \<and> distinct (map fst co) \<longrightarrow>
            map_of (spread (spread [] p) c) k =
              (case map_of co k of Some x \<Rightarrow> Some x | None \<Rightarrow> map_of po k))"
proof -
  let ?f = "mergeOption (JObj pp) (JObj cc)"
  let ?n = "name option"
  let ?init = "spread (spread [] (JObj pp)) (JObj cc)"
  from assms(9) obtain cfg where cfg: "fold_err ?f options ?init = Inr cfg"
    and config: "config = JObj cfg"
    by (auto simp: mergeChildConfig_def split: sum.splits)
  from assms(2) obtain xs ys where split: "options = xs @ option # ys"
    by (auto simp: in_set_conv_decomp)
  with assms(1) have nx: "?n \<notin> name ` set xs" and ny: "?n \<notin> name ` set ys" by auto
  from cfg obtain c1 c2 where c1: "fold_err ?f xs ?init = Inr c1"
    and c2: "?f option c1 = Inr c2" and c3: "fold_err ?f ys c2 = Inr cfg"
    unfolding split by (auto simp: fold_err_append split: sum.splits)
  have "map_of ?init ?n = Some c"
    using assms(4,7) by (simp add: lookup_spread)
  with fold_mergeOption_other_key[OF c1 nx] have "map_of c1 ?n = Some c" by simp
  from mergeOption_own_key[OF assms(3,5,6,7,8) this c2]
  have m2: "map_of c2 ?n =
           (if otype option = ''list''
            then (case js_concat p c of Inr v \<Rightarrow> Some v | Inl e \<Rightarrow> None)
            else Some (JObj (spread (spread [] p) c)))" .
  from fold_mergeOption_other_key[OF c3 ny] have m3: "map_of cfg ?n = map_of c2 ?n" .
  have g: "get_prop config ?n = Inr (own_value cfg ?n)"
    by (simp add: config get_prop_obj)
  have list: "get_prop config ?n = Inr (JArr (ps @ cs))"
    if "otype option = ''list''" "p = JArr ps" "c = JArr cs" for ps cs
    using that m2 m3 g by (simp add: own_value_def)
  have other: "get_prop config ?n = Inr (JObj (spread (spread [] p) c))"
    if "otype option \<noteq> ''list''"
    using that m2 m3 g by (simp add: own_value_def)
  have shallow: "map_of (spread (spread [] p) c) k =
              (case map_of co k of Some x \<Rightarrow> Some x | None \<Rightarrow> map_of po k)"
    if "p = JObj po" "c = JObj co" "distinct (map fst po)" "distinct (map fst co)" for po co k
    using that by (simp add: lookup_spread split: option.splits)
  from list[where cs = "[]"] list other shallow show ?thesis by simp
qed

lemmas merge_simps = registry0_def parent0_def child0_def child_empty_def mergeChildConfig_def
  mergeOption_def spread_def get_prop_def own_value_def js_or_def

theorem mergeChildConfig_mergeable_witness:
  "distinct (map name registry0) \<and> distinct (map fst child0) \<and> distinct (map fst child_empty)
   \<and> mergeChildConfig registry0 (JObj parent0) (JObj child0) =
       Inr (JObj [(''token'', JStr ''abc''),
                  (''packageRules'', JArr [JStr ''a'', JStr ''b'', JStr ''c'', JStr ''a'']),
                  (''lockFileMaintenance'',
                     JObj [(''enabled'', JBool True), (''schedule'', JStr ''weekly'')])])
   \<and> mergeChildConfig registry0 (JObj parent0) (JObj child_empty) = Inr (JObj parent0)"
proof -
  let ?list = "\<lparr>name = ''packageRules'', otype = ''list'', stage = Some ''branch'', mergeable = True\<rparr>"
  let ?obj = "\<lparr>name = ''lockFileMaintenance'', otype = ''json'', stage = Some ''pr'', mergeable = True\<rparr>"
  let ?merged = "JObj [(''token'', JStr ''abc''),
                  (''packageRules'', JArr [JStr ''a'', JStr ''b'', JStr ''c'', JStr ''a'']),
                  (''lockFileMaintenance'',
                     JObj [(''enabled'', JBool True), (''schedule'', JStr ''weekly'')])]"
  have d: "distinct (map name registry0)" "distinct (map fst child0)" "distinct (map fst child_empty)"
    by (simp_all add: registry0_def child0_def child_empty_def)
  have m: "mergeChildConfig registry0 (JObj parent0) (JObj child0) = Inr ?merged"
    by (simp add: merge_simps)
  have e: "mergeChildConfig registry0 (JObj parent0) (JObj child_empty) = Inr (JObj parent0)"
    by (simp add: merge_simps)
  have "get_prop ?merged ''packageRules'' = Inr (JArr ([JStr ''a'', JStr ''b''] @ [JStr ''c'', JStr ''a'']))"
    using mergeChildConfig_mergeable [of registry0 ?list child0 parent0
        "JArr [JStr ''a'', JStr ''b'']" "JArr [JStr ''c'', JStr ''a'']" ?merged] d m
    by (simp add: registry0_def parent0_def child0_def)
  moreover have "get_prop ?merged ''lockFileMaintenance'' =
      Inr (JObj (spread (spread [] (JObj [(''enabled'', JBool False), (''schedule'', JStr ''weekly'')]))
                   (JObj [(''enabled'', JBool True)])))"
    using mergeChildConfig_mergeable [of registry0 ?obj child0 parent0
        "JObj [(''enabled'', JBool False), (''schedule'', JStr ''weekly'')]"
        "JObj [(''enabled'', JBool True)]" ?merged] d m
    by (simp add: registry0_def parent0_def child0_def)
  moreover have "get_prop (JObj parent0) ''packageRules'' = Inr (JArr [JStr ''a'', JStr ''b''])"
    using mergeChildConfig_mergeable [of registry0 ?list child_empty parent0
        "JArr [JStr ''a'', JStr ''b'']" "JArr []" "JObj parent0"] d e
    by (simp add: registry0_def parent0_def child_empty_def)
  ultimately show ?thesis using d m e by simp
qed

text \<open>mergeChildConfig returns whenever the parent's values under the mergeable list
  options are arrays or strings (or falsy): only a receiver without \<^verbatim>\<open>concat\<close> throws.\<close>

lemma js_concat_returns: "(\<exists>xs. r = JArr xs) \<or> (\<exists>s. r = JStr s) \<Longrightarrow> \<exists>v. js_concat r a = Inr v"
  by (cases a) auto

lemma mergeChildConfig_returns:
  assumes "\<forall>opt \<in> set options. mergeable opt \<and> otype opt = ''list'' \<longrightarrow>
             (\<forall>p. map_of pp (name opt) = Some p \<and> truthy p \<longrightarrow>
                (\<exists>xs. p = JArr xs) \<or> (\<exists>s. p = JStr s))"
  shows "\<exists>cfg. mergeChildConfig options (JObj pp) (JObj cc) = Inr cfg"
proof (cases "truthy (JObj cc)")
  case False then show ?thesis by simp
next
  case True
  have "\<exists>s'. mergeOption (JObj pp) (JObj cc) opt s = Inr s'" if "opt \<in> set options" for opt s
  proof (cases "mergeable opt \<and> otype opt = ''list'' \<and> truthy (own_value pp (name opt)) \<and> truthy (own_value cc (name opt))")
    case True
    then obtain p where "map_of pp (name opt) = Some p" "truthy p"
      by (auto simp: own_value_def split: option.splits)
    with assms that True have "(\<exists>xs. p = JArr xs) \<or> (\<exists>s. p = JStr s)" by blast
    from js_concat_returns[OF this]
    obtain v where "js_concat p (js_or (own_value s (name opt)) (JArr [])) = Inr v" by blast
    with \<open>map_of pp (name opt) = Some p\<close> \<open>truthy p\<close> True
    show ?thesis
      by (simp add: mergeOption_def get_prop_obj own_value_def js_or_def)
  next
    case False
    then show ?thesis
      by (auto simp: mergeOption_def get_prop_obj split: sum.splits)
  qed
  from fold_err_returns[of options "mergeOption (JObj pp) (JObj cc)", OF this]
  obtain cfg where "fold_err (mergeOption (JObj pp) (JObj cc)) options
                      (spread (spread [] (JObj pp)) (JObj cc)) = Inr cfg" by blast
  then show ?thesis by (simp add: mergeChildConfig_def)
qed

section \<open>Properties of parseConfigs\<close>

text \<open>
  C1. In the object that parseConfigs builds from the four sources, the value of every
  key is the value from the highest source that defines the key, in the order
  environment, CLI, file, defaults; a key that no source defines is absent.
\<close>

theorem mergeSources_precedence:
  assumes "distinct (map fst (own_props defaultConfig))"
    and "distinct (map fst (own_props fileConfig))"
    and "distinct (map fst (own_props cliConfig))"
    and "distinct (map fst (own_props envConfig))"
  shows "map_of (mergeSources defaultConfig fileConfig cliConfig envConfig) k =
           (case map_of (own_props envConfig) k of
              Some x \<Rightarrow> Some x
            | None \<Rightarrow>
               (case map_of (own_props cliConfig) k of
                  Some x \<Rightarrow> Some x
                | None \<Rightarrow>
                   (case map_of (own_props fileConfig) k of
                      Some x \<Rightarrow> Some x
                    | None \<Rightarrow> map_of (own_props defaultConfig) k)))"
  using assms by (simp add: mergeSources_def lookup_spread split: option.splits)

theorem mergeSources_precedence_witness:
  "distinct (map fst (own_props source_defaults)) \<and> distinct (map fst (own_props source_file))
   \<and> distinct (map fst (own_props source_cli)) \<and> distinct (map fst (own_props source_env))
   \<and> map_of (mergeSources source_defaults source_file source_cli source_env) ''token'' = Some (JStr ''xyz'')
   \<and> map_of (mergeSources source_defaults source_file source_cli source_env) ''logLevel'' = Some (JStr ''debug'')
   \<and> map_of (mergeSources source_defaults source_file source_cli source_env) ''platform'' = Some (JStr ''gitlab'')
   \<and> map_of (mergeSources source_defaults source_file source_cli source_env) ''repositories'' = Some (JArr [])"
  using mergeSources_precedence [of source_defaults source_file source_cli source_env]
  by (simp add: source_defaults_def source_file_def source_cli_def source_env_def)

lemma get_prop_js_get: "\<not> nullish v \<Longrightarrow> get_prop v k = Inr (js_get v k)"
  by (auto simp: js_get_def get_prop_def split: option.splits)

lemma js_get_nullish: "nullish v \<Longrightarrow> js_get v k = JUndefined"
  by (simp add: js_get_def get_prop_def)

lemma checkToken_cases:
  "\<not> nullish env \<Longrightarrow> checkToken config env var msg =
     (if \<not> truthy (js_get config ''token'') \<and> \<not> truthy (js_get env var)
      then Some (MissingToken msg) else None)"
  by (simp add: checkToken_def get_prop_js_get)

lemma strict_eq_str: "strict_eq v (JStr s) \<longleftrightarrow> v = JStr s"
  by (cases v) auto

lemma checkPlatform_fatal:
  "\<not> nullish env \<Longrightarrow> checkPlatform config env = Some e \<Longrightarrow> fatal_config_error e"
  by (auto simp: checkPlatform_def checkToken_cases split: if_splits)

lemma checkPlatform_None_iff:
  assumes "\<not> nullish env"
  shows "checkPlatform config env \<noteq> None \<longleftrightarrow>
     (js_get config ''platform'' \<notin> {JStr ''github'', JStr ''gitlab'', JStr ''vsts''}
      \<or> (js_get config ''platform'' = JStr ''github'' \<and> \<not> truthy (js_get config ''token'')
           \<and> \<not> truthy (js_get env ''GITHUB_TOKEN''))
      \<or> (js_get config ''platform'' = JStr ''gitlab'' \<and> \<not> truthy (js_get config ''token'')
           \<and> \<not> truthy (js_get env ''GITLAB_TOKEN''))
      \<or> (js_get config ''platform'' = JStr ''vsts'' \<and> \<not> truthy (js_get config ''token'')
           \<and> \<not> truthy (js_get env ''VSTS_TOKEN'')))"
  using assms by (auto simp: checkPlatform_def checkToken_cases strict_eq_str)

lemma js_find_error: "js_find v n = Inl e \<Longrightarrow> e = TypeError"
proof (cases v)
  case (JArr rs)
  have "find_repo rs n = Inl e \<Longrightarrow> e = TypeError"
    by (induction rs) (auto simp: repoName_def has_own_property_def get_prop_def split: sum.splits if_splits option.splits)
  then show "js_find v n = Inl e \<Longrightarrow> e = TypeError" using JArr by simp
qed auto

lemma js_push_error: "js_push v r = Inl e \<Longrightarrow> e = TypeError"
  by (cases v) auto

lemma repoName_error: "repoName r = Inl e \<Longrightarrow> e = TypeError"
  by (auto simp: repoName_def has_own_property_def get_prop_def split: sum.splits if_splits option.splits)

lemma discoverStep_error: "discoverStep repo rs = Inl e \<Longrightarrow> e = TypeError"
  by (auto simp: discoverStep_def split: sum.splits if_splits dest: repoName_error js_find_error js_push_error)

lemma fold_discoverStep_error: "fold_err discoverStep ds rs = Inl e \<Longrightarrow> e = TypeError"
  by (induction ds arbitrary: rs) (auto split: sum.splits dest: discoverStep_error)

lemma resolveAll_error: "resolveAll f rs = Inl e \<Longrightarrow> \<not> fatal_config_error e"
  by (induction rs arbitrary: e) (auto split: sum.splits)

lemma finish_error: "finish C config = Inl e \<Longrightarrow> \<not> fatal_config_error e"
  by (auto simp: finish_def resolveRepositories_def split: sum.splits jsval.splits if_splits dest: resolveAll_error)

lemma autodiscover_error: "snd (autodiscover C config) = Inl e \<Longrightarrow> \<not> fatal_config_error e"
  by (auto simp: autodiscover_def split: if_splits prod.splits sum.splits
      dest: finish_error fold_discoverStep_error)

text \<open>
  C3. Let the preset resolver return the configuration \<open>config\<close>. parseConfigs throws one
  of the two errors of its platform check exactly when the platform of \<open>config\<close> is none
  of \<open>github\<close>, \<open>gitlab\<close>, \<open>vsts\<close>, or it is one of them and neither the \<open>token\<close> option
  nor the environment variable of that platform holds a (truthy) credential; and then
  no repository listing has been called.
\<close>

theorem parseConfigs_fatal_iff:
  assumes "resolveConfigPresets C (JObj (mergeSources (defaults_getConfig C) (file_getConfig C env)
             (cli_getConfig C argv) (env_getConfig C env))) = Inr config"
    and "\<not> nullish config" and "\<not> nullish env"
  shows "((\<exists>e. snd (parseConfigs C env argv) = Inl e \<and> fatal_config_error e) \<longleftrightarrow>
            (js_get config ''platform'' \<notin> {JStr ''github'', JStr ''gitlab'', JStr ''vsts''}
             \<or> (js_get config ''platform'' = JStr ''github'' \<and> \<not> truthy (js_get config ''token'')
                  \<and> \<not> truthy (js_get env ''GITHUB_TOKEN''))
             \<or> (js_get config ''platform'' = JStr ''gitlab'' \<and> \<not> truthy (js_get config ''token'')
                  \<and> \<not> truthy (js_get env ''GITLAB_TOKEN''))
             \<or> (js_get config ''platform'' = JStr ''vsts'' \<and> \<not> truthy (js_get config ''token'')
                  \<and> \<not> truthy (js_get env ''VSTS_TOKEN''))))
       \<and> ((\<exists>e. snd (parseConfigs C env argv) = Inl e \<and> fatal_config_error e) \<longrightarrow>
            (\<forall>platform token endpoint. GetRepos platform token endpoint \<notin> set (fst (parseConfigs C env argv))))"
proof -
  let ?fatal = "\<exists>e. snd (parseConfigs C env argv) = Inl e \<and> fatal_config_error e"
  have thrown: "parseConfigs C env argv = (configureLogger config, Inl e)"
    if "checkPlatform config env = Some e" for e
    using assms(1,2) that by (simp add: parseConfigs_def Let_def)
  have passed: "snd (parseConfigs C env argv) = snd (autodiscover C config)"
    if "checkPlatform config env = None"
    using assms(1,2) that by (simp add: parseConfigs_def Let_def split: prod.splits)
  have iff: "?fatal \<longleftrightarrow> checkPlatform config env \<noteq> None"
  proof (cases "checkPlatform config env")
    case None
    with passed autodiscover_error[of C config] show ?thesis by auto
  next
    case (Some e)
    with thrown[OF Some] checkPlatform_fatal[OF assms(3) Some] show ?thesis by simp
  qed
  have nocall: "GetRepos platform token endpoint \<notin> set (fst (parseConfigs C env argv))"
    if "?fatal" for platform token endpoint
  proof -
    from that iff obtain e where "checkPlatform config env = Some e" by auto
    from thrown[OF this] show ?thesis by (auto simp: configureLogger_def)
  qed
  from iff nocall checkPlatform_None_iff[OF assms(3), of config] show ?thesis by blast
qed

lemmas eval_simps = collab_def file_autodiscover_def file_bitbucket_def config_autodiscover_def
  parseConfigs_def mergeSources_def spread_def
  checkPlatform_def checkToken_def js_get_def get_prop_def autodiscover_def discover_def
  configureLogger_def

theorem parseConfigs_fatal_iff_witness:
  "\<not> nullish (JObj [(''logLevel'', JStr ''error''), (''repositories'', JArr []),
                    (''platform'', JStr ''bitbucket''), (''token'', JStr ''abc'')])
   \<and> \<not> nullish (JObj [])
   \<and> parseConfigs (collab file_bitbucket []) (JObj []) (JArr []) =
       ([LogLevels (JStr ''error'')], Inl (UnsupportedPlatform (JStr ''bitbucket'')))
   \<and> \<not> nullish (JObj [(''logLevel'', JStr ''error''), (''repositories'', JArr []),
                      (''platform'', JStr ''github'')])
   \<and> parseConfigs (collab file_no_token []) (JObj []) (JArr []) =
       ([LogLevels (JStr ''error'')], Inl (MissingToken ''You need to supply a GitHub token.''))"
proof -
  let ?config2 = "JObj [(''logLevel'', JStr ''error''), (''repositories'', JArr []),
                      (''platform'', JStr ''github'')]"
  have r2: "resolveConfigPresets (collab file_no_token [])
         (JObj (mergeSources (defaults_getConfig (collab file_no_token []))
            (file_getConfig (collab file_no_token []) (JObj []))
            (cli_getConfig (collab file_no_token []) (JArr []))
            (env_getConfig (collab file_no_token []) (JObj [])))) = Inr ?config2"
    by (simp add: eval_simps file_no_token_def)
  have n2: "\<not> nullish ?config2" by simp
  have v2: "parseConfigs (collab file_no_token []) (JObj []) (JArr []) =
       ([LogLevels (JStr ''error'')], Inl (MissingToken ''You need to supply a GitHub token.''))"
    by (simp add: eval_simps file_no_token_def)
  let ?config = "JObj [(''logLevel'', JStr ''error''), (''repositories'', JArr []),
                    (''platform'', JStr ''bitbucket''), (''token'', JStr ''abc'')]"
  have r: "resolveConfigPresets (collab file_bitbucket [])
         (JObj (mergeSources (defaults_getConfig (collab file_bitbucket []))
            (file_getConfig (collab file_bitbucket []) (JObj []))
            (cli_getConfig (collab file_bitbucket []) (JArr []))
            (env_getConfig (collab file_bitbucket []) (JObj [])))) = Inr ?config"
    by (simp add: eval_simps)
  have n: "\<not> nullish ?config" "\<not> nullish (JObj [])" by simp_all
  have v: "parseConfigs (collab file_bitbucket []) (JObj []) (JArr []) =
       ([LogLevels (JStr ''error'')], Inl (UnsupportedPlatform (JStr ''bitbucket'')))"
    by (simp add: eval_simps)
  from parseConfigs_fatal_iff [OF r n] parseConfigs_fatal_iff [OF r2 n2 n(2)] n v n2 v2
  show ?thesis by simp
qed

text \<open>
  C5. When the platform check passes, autodiscovery is requested and the listing returns no
  repository, parseConfigs does not throw: it returns the resolved configuration as it
  is, and so with its \<open>repositories\<close> untouched.
\<close>

theorem parseConfigs_empty_discovery:
  assumes "resolveConfigPresets C (JObj (mergeSources (defaults_getConfig C) (file_getConfig C env)
             (cli_getConfig C argv) (env_getConfig C env))) = Inr config"
    and "checkPlatform config env = None"
    and "truthy (js_get config ''autodiscover'')"
    and "snd (discover C config) = Inr []"
  shows "snd (parseConfigs C env argv) = Inr config"
proof -
  from assms(2) have "\<not> nullish config"
    by (auto simp: checkPlatform_def js_get_nullish)
  with assms show ?thesis
    by (auto simp: parseConfigs_def Let_def autodiscover_def split: prod.splits sum.splits)
qed

theorem parseConfigs_empty_discovery_witness:
  "checkPlatform config_autodiscover (JObj []) = None
   \<and> truthy (js_get config_autodiscover ''autodiscover'')
   \<and> snd (discover (collab file_autodiscover []) config_autodiscover) = Inr []
   \<and> snd (parseConfigs (collab file_autodiscover []) (JObj []) (JArr [])) = Inr config_autodiscover
   \<and> js_get config_autodiscover ''repositories'' = JArr []"
proof -
  have r: "resolveConfigPresets (collab file_autodiscover [])
         (JObj (mergeSources (defaults_getConfig (collab file_autodiscover []))
            (file_getConfig (collab file_autodiscover []) (JObj []))
            (cli_getConfig (collab file_autodiscover []) (JArr []))
            (env_getConfig (collab file_autodiscover []) (JObj [])))) = Inr config_autodiscover"
    by (simp add: eval_simps)
  have c: "checkPlatform config_autodiscover (JObj []) = None"
    by (simp add: eval_simps)
  have a: "truthy (js_get config_autodiscover ''autodiscover'')"
    by (simp add: eval_simps)
  have d: "snd (discover (collab file_autodiscover []) config_autodiscover) = Inr []"
    by (simp add: eval_simps)
  have g: "js_get config_autodiscover ''repositories'' = JArr []"
    by (simp add: eval_simps)
  from parseConfigs_empty_discovery [OF r c a d] c a d g show ?thesis by simp
qed

text \<open>
  C2. On the path of C5 the function returns before it deletes the log file entries:
  with \<open>logFile\<close> and \<open>logFileLevel\<close> configured, autodiscovery requested and an empty
  listing, the returned configuration still holds both keys.
\<close>

theorem parseConfigs_keeps_logFile:
  "snd (parseConfigs (collab file_autodiscover []) (JObj []) (JArr [])) = Inr config_autodiscover
   \<and> js_get config_autodiscover ''logFile'' = JStr ''renovate.log''
   \<and> js_get config_autodiscover ''logFileLevel'' = JStr ''debug''"
  by (simp add: eval_simps)

text \<open>On every other path the two keys are removed: a configuration that comes out of the
  end of the function holds neither, and parseConfigs returns no other way.\<close>

lemma finish_removes_log_file:
  assumes "finish C config = Inr (JObj ps)"
  shows "''logFile'' \<notin> fst ` set ps \<and> ''logFileLevel'' \<notin> fst ` set ps"
proof -
  from assms obtain config' where "del (del config' ''logFile'') ''logFileLevel'' = JObj ps"
    by (auto simp: finish_def split: sum.splits)
  then show ?thesis by (cases config') (auto simp: delete_prop_filter)
qed

lemma parseConfigs_removes_log_file:
  assumes "resolveConfigPresets C (JObj (mergeSources (defaults_getConfig C) (file_getConfig C env)
             (cli_getConfig C argv) (env_getConfig C env))) = Inr config"
    and "snd (parseConfigs C env argv) = Inr (JObj ps)"
    and "\<not> (truthy (js_get config ''autodiscover'') \<and> snd (discover C config) = Inr [])"
  shows "''logFile'' \<notin> fst ` set ps \<and> ''logFileLevel'' \<notin> fst ` set ps"
proof -
  from assms(1,2) have "snd (autodiscover C config) = Inr (JObj ps)"
    by (auto simp: parseConfigs_def Let_def split: if_splits option.splits prod.splits)
  with assms(3) obtain config' where "finish C config' = Inr (JObj ps)"
    by (auto simp: autodiscover_def split: if_splits prod.splits sum.splits)
  then show ?thesis by (rule finish_removes_log_file)
qed

lemma repoName_returns: "\<not> nullish r \<Longrightarrow> \<exists>n. repoName r = Inr n"
  by (auto simp: repoName_def has_own_property_def get_prop_def split: option.splits)

lemma repoName_match_truthy:
  assumes "repoName r = Inr m" and "strict_eq m n" and "truthy n"
  shows "truthy r"
proof (cases "has_own_property r ''repository'' = Inr True")
  case True
  then have "map_of (own_props r) ''repository'' \<noteq> None"
    by (auto simp: has_own_property_def split: if_splits)
  then show ?thesis by (cases r) auto
next
  case False
  with assms(1) have "m = r"
    by (auto simp: repoName_def has_own_property_def split: if_splits)
  with assms(2,3) show ?thesis by (cases r) auto
qed

lemma find_repo_truthy:
  assumes "\<forall>r \<in> set rs. \<not> nullish r" and "truthy n"
  shows "\<exists>found. find_repo rs n = Inr found \<and>
           (truthy found \<longleftrightarrow> (\<exists>r \<in> set rs. \<exists>m. repoName r = Inr m \<and> strict_eq m n))"
  using assms(1)
proof (induction rs)
  case Nil
  then show ?case by simp
next
  case (Cons r rs)
  then obtain m where m: "repoName r = Inr m" using repoName_returns[of r] by auto
  show ?case
  proof (cases "strict_eq m n")
    case True
    with m repoName_match_truthy[OF m True assms(2)] show ?thesis by auto
  next
    case False
    with m Cons show ?thesis by auto
  qed
qed

text \<open>
  C4, as stated, fails for an identifier that is falsy: the search among the configured
  entries is skipped for it, and the discovered duplicate is added. Here the configured
  list holds the entry \<^verbatim>\<open>''\<close> and the same entry is discovered.
\<close>

theorem discoverStep_counterexample:
  "repoName (JStr []) = Inr (JStr []) \<and> strict_eq (JStr []) (JStr [])
   \<and> discoverStep (JStr []) (JArr [JStr []]) = Inr (JArr [JStr [], JStr []])"
  by (simp add: discoverStep_def repoName_def has_own_property_def index_keys_def)

text \<open>
  C4, amended. One round of the autodiscovery loop, on a list without \<^verbatim>\<open>null\<close> entries:
  when the identifier of the discovered repository is truthy and is \<^verbatim>\<open>===\<close> to the
  identifier of an entry of the list, the list stays as it is; otherwise the discovered
  entry is appended as it is. The identifier of an entry is its \<open>repository\<close> property
  if it has one of its own, and the entry itself otherwise.
\<close>

theorem discoverStep_dedup:
  assumes "repoName repo = Inr newRepoName" and "\<forall>r \<in> set repositories. \<not> nullish r"
  shows "discoverStep repo (JArr repositories) =
           Inr (JArr (if truthy newRepoName \<and>
                         (\<exists>r \<in> set repositories. \<exists>n. repoName r = Inr n \<and> strict_eq n newRepoName)
                      then repositories else repositories @ [repo]))"
proof (cases "truthy newRepoName")
  case True
  from find_repo_truthy[OF assms(2) True] obtain found
    where "find_repo repositories newRepoName = Inr found"
      and "truthy found \<longleftrightarrow>
             (\<exists>r \<in> set repositories. \<exists>n. repoName r = Inr n \<and> strict_eq n newRepoName)"
    by blast
  with assms(1) True show ?thesis by (simp add: discoverStep_def)
next
  case False
  with assms(1) show ?thesis by (simp add: discoverStep_def)
qed

theorem discoverStep_dedup_witness:
  "repoName (JStr ''org/repo'') = Inr (JStr ''org/repo'')
   \<and> \<not> nullish configured_repo
   \<and> discoverStep (JStr ''org/repo'') (JArr [configured_repo]) = Inr (JArr [configured_repo])
   \<and> fold_err discoverStep [JStr ''org/repo''] (JArr [configured_repo]) = Inr (JArr [configured_repo])
   \<and> discoverStep (JStr ''org/other'') (JArr [configured_repo]) =
       Inr (JArr [configured_repo, JStr ''org/other''])"
proof -
  have n: "repoName (JStr ''org/repo'') = Inr (JStr ''org/repo'')"
    by (simp add: repoName_def has_own_property_def index_keys_def dec.simps)
  have n': "repoName (JStr ''org/other'') = Inr (JStr ''org/other'')"
    by (simp add: repoName_def has_own_property_def index_keys_def dec.simps)
  have c: "repoName configured_repo = Inr (JStr ''org/repo'')"
    by (simp add: repoName_def has_own_property_def configured_repo_def get_prop_def)
  have a: "\<forall>r \<in> set [configured_repo]. \<not> nullish r"
    by (simp add: configured_repo_def)
  from discoverStep_dedup [OF n a] discoverStep_dedup [OF n' a] n a c
  show ?thesis by simp
qed

end
